theory Spec2Isabelle
  imports Main
begin

section \<open>The document model\<close>

text \<open>
  ArtiCast.py works on the tree that \<^verbatim>\<open>xml.etree.ElementTree.fromstring\<close> builds.
  An \<^verbatim>\<open>Element\<close> object has a tag, a dictionary of attributes, the optional text
  that follows its opening tag (\<^verbatim>\<open>element.text\<close>), the optional text that follows its
  closing tag (\<^verbatim>\<open>element.tail\<close>) and its child elements in document order.
  The field \<^verbatim>\<open>text\<close> is called \<open>etext\<close> here, \<open>text\<close> being a keyword
  of the theory language. The attribute dictionary is an association list, read
  with \<open>map_of\<close>.

  A Python \<^verbatim>\<open>str\<close> is modelled as a \<open>string\<close> whose characters are code points
  below 256; text with higher code points is outside the model.
\<close>

datatype element = Element
  (tag: string)
  (attrib: "(string \<times> string) list")
  (etext: "string option")
  (tail: "string option")
  (children: "element list")

text \<open>
  The exceptions: a failed \<^verbatim>\<open>assert\<close> (the script runs without \<^verbatim>\<open>-O\<close>, so
  assertions are checked), and the \<^verbatim>\<open>ValueError\<close> of line 121 with its message.
  \<open>TypeError\<close> is raised by no line of the linearizer; it is used only where
  the objects live in a heap, for an address that holds an object of the wrong
  class.
\<close>

datatype error = AssertionError | ValueError string | TypeError

subsection \<open>Library functions the source calls\<close>

text \<open>
  \<^verbatim>\<open>str.strip()\<close> without an argument removes leading and trailing whitespace,
  that is the characters for which \<^verbatim>\<open>str.isspace\<close> holds. Below 256 these are
  the code points 9 to 13, 28 to 32, 133 and 160.
\<close>

definition whitespace :: "char list" where
  "whitespace =
     [CHR 0x09, CHR 0x0A, CHR 0x0B, CHR 0x0C, CHR 0x0D,
      CHR 0x1C, CHR 0x1D, CHR 0x1E, CHR 0x1F, CHR 0x20, CHR 0x85, CHR 0xA0]"

definition isspace :: "char \<Rightarrow> bool" where
  "isspace c = (c \<in> set whitespace)"

definition strip :: "string \<Rightarrow> string" where
  "strip s = rev (dropWhile isspace (rev (dropWhile isspace s)))"

text \<open>
  \<^verbatim>\<open>Element.get(key)\<close> looks the key up in the attribute dictionary and returns
  \<^verbatim>\<open>None\<close> when it is missing.
\<close>

definition get :: "element \<Rightarrow> string \<Rightarrow> string option" where
  "get element key = map_of (attrib element) key"

text \<open>
  \<^verbatim>\<open>Element.iter()\<close> yields the element itself and then all its descendants in
  document order (depth first, children from left to right). The loop body of the
  linearizer never changes the tree, so the generator is modelled by the list of
  the nodes it yields.
\<close>

fun iter :: "element \<Rightarrow> element list" where
  "iter (Element t a x l cs) = Element t a x l cs # concat (map iter cs)"

section \<open>Node classifier (lines 57 to 73)\<close>

definition ns :: string where
  "ns = ''{http://www.tei-c.org/ns/1.0}''"

definition is_heading :: "element \<Rightarrow> bool" where
  "is_heading element = (tag element = ns @ ''head'')"

definition is_paragraph :: "element \<Rightarrow> bool" where
  "is_paragraph element = (tag element = ns @ ''p'')"

definition is_formula :: "element \<Rightarrow> bool" where
  "is_formula element = (tag element = ns @ ''formula'')"

definition is_bib_reference :: "element \<Rightarrow> bool" where
  "is_bib_reference element =
     (tag element = ns @ ''ref'' \<and> get element ''type'' = Some ''bibr'')"

section \<open>Section linearizer (lines 76 to 121)\<close>

text \<open>
  One iteration of the loop of lines 90 to 118 is \<open>visit\<close>: it takes the list
  \<^verbatim>\<open>result\<close> built so far and returns the extended list, or the exception that
  aborts the run. It is the \<^verbatim>\<open>if\<close>/\<^verbatim>\<open>elif\<close> chain of lines 91 to 113
  (\<open>visit_text\<close>) followed by the handling of the tail of lines 114 to 118
  (\<open>visit_tail\<close>). Python's truth test \<^verbatim>\<open>if text:\<close> fails for \<^verbatim>\<open>None\<close> and for
  the empty string.
\<close>

definition visit_text :: "element \<Rightarrow> string list \<Rightarrow> error + string list" where
  "visit_text element result =
     (if is_heading element then
        (case etext element of
           None \<Rightarrow> Inl AssertionError
         | Some t \<Rightarrow> Inr (result @ [''[[HEADING: '' @ strip t @ '']]'']))
      else if is_paragraph element then
        (if etext element \<noteq> None then Inl AssertionError
         else if tail element \<noteq> None then Inl AssertionError
         else Inr (result @ ['''']))
      else if is_formula element then
        (case etext element of
           None \<Rightarrow> Inl AssertionError
         | Some t \<Rightarrow> Inr (result @ [''[[FORMULA: '' @ strip t @ '']]'']))
      else if is_bib_reference element then Inr result
      else
        (case map_option strip (etext element) of
           None \<Rightarrow> Inr result
         | Some t \<Rightarrow> if t \<noteq> [] then Inr (result @ [t]) else Inr result))"

definition visit_tail :: "element \<Rightarrow> string list \<Rightarrow> string list" where
  "visit_tail element result =
     (case map_option strip (tail element) of
        None \<Rightarrow> result
      | Some t \<Rightarrow> if t \<noteq> [] then result @ [t] else result)"

definition visit :: "element \<Rightarrow> string list \<Rightarrow> error + string list" where
  "visit element result =
     (case visit_text element result of
        Inl err \<Rightarrow> Inl err
      | Inr result' \<Rightarrow> Inr (visit_tail element result'))"

text \<open>The \<^verbatim>\<open>for\<close> loop over the nodes: the first exception ends it.\<close>

fun visit_all :: "element list \<Rightarrow> string list \<Rightarrow> error + string list" where
  "visit_all [] result = Inr result"
| "visit_all (element # elements) result =
     (case visit element result of
        Inl err \<Rightarrow> Inl err
      | Inr result' \<Rightarrow> visit_all elements result')"

definition process_paper_section :: "element \<Rightarrow> error + string list" where
  "process_paper_section section =
     (if tag section = ns @ ''note'' then Inr []
      else if tag section = ns @ ''figure'' then Inr []
      else if tag section = ns @ ''div'' then visit_all (iter section) []
      else Inl (ValueError (''Unexpected section tag: '' @ tag section)))"

section \<open>Document assembler (lines 152 to 159 of main)\<close>

text \<open>
  The first loop of \<open>main\<close> linearizes the children of the body in order and stops
  at the first exception; the second loop joins the sections, appending an empty
  line whenever the text gathered so far is not empty.
\<close>

fun rough_sections :: "element list \<Rightarrow> error + string list list" where
  "rough_sections [] = Inr []"
| "rough_sections (section # sections) =
     (case process_paper_section section of
        Inl err \<Rightarrow> Inl err
      | Inr lines \<Rightarrow>
          (case rough_sections sections of
             Inl err \<Rightarrow> Inl err
           | Inr rest \<Rightarrow> Inr (lines # rest)))"

fun rough_text :: "string list \<Rightarrow> string list list \<Rightarrow> string list" where
  "rough_text acc [] = acc"
| "rough_text acc (section # sections) =
     rough_text ((if acc \<noteq> [] then acc @ [''''] else acc) @ section) sections"

definition assemble :: "element \<Rightarrow> error + string list" where
  "assemble body_element =
     (case rough_sections (children body_element) of
        Inl err \<Rightarrow> Inl err
      | Inr sections \<Rightarrow> Inr (rough_text [] sections))"

section \<open>Example documents\<close>

text \<open>
  \<open>tei name text tail children\<close> is an element of the TEI namespace without
  attributes. The documents below are the trees \<^verbatim>\<open>fromstring\<close> builds for the
  XML quoted with each of them; a slot without characters is \<^verbatim>\<open>None\<close>.
\<close>

definition tei :: "string \<Rightarrow> string option \<Rightarrow> string option \<Rightarrow> element list \<Rightarrow> element" where
  "tei name x l cs = Element (ns @ name) [] x l cs"

text \<open>
  \<^verbatim>\<open><div><head>Intro</head><p>Hello <formula>x=1</formula> world.</p></div>\<close>,
  read in the TEI namespace (\<open>intro_div\<close>) and, as it is written, without a
  namespace (\<open>plain_intro_div\<close>).
\<close>

definition intro_div :: element where
  "intro_div =
     tei ''div'' None None
       [tei ''head'' (Some ''Intro'') None [],
        tei ''p'' (Some ''Hello '') None
          [tei ''formula'' (Some ''x=1'') (Some '' world.'') []]]"

definition plain_intro_div :: element where
  "plain_intro_div =
     Element ''div'' [] None None
       [Element ''head'' [] (Some ''Intro'') None [],
        Element ''p'' [] (Some ''Hello '') None
          [Element ''formula'' [] (Some ''x=1'') (Some '' world.'') []]]"

text \<open>
  \<^verbatim>\<open><div><head>Intro</head><p><s>Hello <formula>x=1</formula> world.</s></p></div>\<close>:
  the same section with the paragraph's content inside a sentence element, as the
  extraction service returns it when sentence segmentation is on.
\<close>

definition intro_div_sentence :: element where
  "intro_div_sentence =
     tei ''div'' None None
       [tei ''head'' (Some ''Intro'') None [],
        tei ''p'' None None
          [tei ''s'' (Some ''Hello '') None
             [tei ''formula'' (Some ''x=1'') (Some '' world.'') []]]]"

text \<open>
  Three top-level sections of a body: \<^verbatim>\<open><div><head>A</head></div>\<close>,
  \<^verbatim>\<open><note>B</note>\<close> and \<^verbatim>\<open><div><head>C</head></div>\<close>.
\<close>

definition div_a :: element where
  "div_a = tei ''div'' None None [tei ''head'' (Some ''A'') None []]"

definition note_b :: element where
  "note_b = tei ''note'' (Some ''B'') None []"

definition div_c :: element where
  "div_c = tei ''div'' None None [tei ''head'' (Some ''C'') None []]"

text \<open>
  \<^verbatim>\<open><div><head> </head></div>\<close>, a heading whose text is one space;
  \<^verbatim>\<open><div><formula>E = m c 2</formula></div>\<close>; and \<^verbatim>\<open><div><head/></div>\<close>, a heading
  without text.
\<close>

definition blank_head_div :: element where
  "blank_head_div = tei ''div'' None None [tei ''head'' (Some '' '') None []]"

definition energy_formula :: element where
  "energy_formula = tei ''formula'' (Some ''E = m c 2'') None []"

definition formula_div :: element where
  "formula_div = tei ''div'' None None [energy_formula]"

definition empty_head :: element where
  "empty_head = tei ''head'' None None []"

definition empty_head_div :: element where
  "empty_head_div = tei ''div'' None None [empty_head]"

text \<open>
  \<^verbatim>\<open><div><p><s>One.</s></p></div>\<close>, a paragraph without text of its own, and
  \<^verbatim>\<open><div><p>One.</p></div>\<close>, a paragraph with text directly inside it.
\<close>

definition sentence_p :: element where
  "sentence_p = tei ''p'' None None [tei ''s'' (Some ''One.'') None []]"

definition sentence_div :: element where
  "sentence_div = tei ''div'' None None [sentence_p]"

definition raw_text_p :: element where
  "raw_text_p = tei ''p'' (Some ''One.'') None []"

definition raw_text_div :: element where
  "raw_text_div = tei ''div'' None None [raw_text_p]"

text \<open>
  \<^verbatim>\<open><div><s>As shown<ref type="bibr">[4]</ref>, it holds.</s></div>\<close>: a
  bibliographic reference followed by text.
\<close>

definition bibr :: element where
  "bibr = Element (ns @ ''ref'') [(''type'', ''bibr'')] (Some ''[4]'') (Some '', it holds.'') []"

definition cited_div :: element where
  "cited_div = tei ''div'' None None [tei ''s'' (Some ''As shown'') None [bibr]]"

text \<open>
  \<^verbatim>\<open><note><p>Draft</p></note>\<close> and \<^verbatim>\<open><figure><p>Draft</p></figure>\<close>, each holding a
  paragraph that the traversal of a div rejects, as in \<^verbatim>\<open><div><p>Draft</p></div>\<close>;
  and \<^verbatim>\<open><table/>\<close>.
\<close>

definition draft_note :: element where
  "draft_note = tei ''note'' None None [tei ''p'' (Some ''Draft'') None []]"

definition draft_figure :: element where
  "draft_figure = tei ''figure'' None None [tei ''p'' (Some ''Draft'') None []]"

definition draft_div :: element where
  "draft_div = tei ''div'' None None [tei ''p'' (Some ''Draft'') None []]"

definition table_section :: element where
  "table_section = tei ''table'' None None []"

text \<open>
  \<^verbatim>\<open><div><p> </p></div>\<close>, a paragraph whose text is one space;
  \<^verbatim>\<open><div><p/> </div>\<close>, a paragraph followed by one space; and \<^verbatim>\<open><p/>\<close>.
\<close>

definition blank_text_p :: element where
  "blank_text_p = tei ''p'' (Some '' '') None []"

definition blank_text_div :: element where
  "blank_text_div = tei ''div'' None None [blank_text_p]"

definition blank_tail_p :: element where
  "blank_tail_p = tei ''p'' None (Some '' '') []"

definition blank_tail_div :: element where
  "blank_tail_div = tei ''div'' None None [blank_tail_p]"

definition empty_p :: element where
  "empty_p = tei ''p'' None None []"

text \<open>
  \<^verbatim>\<open><div><p><s>Before <note>see <hi>there</hi> too</note> after.</s></p></div>\<close>: a
  note inside a sentence, with a child element and a tail.
\<close>

definition nested_note :: element where
  "nested_note =
     tei ''note'' (Some ''see '') (Some '' after.'') [tei ''hi'' (Some ''there'') (Some '' too'') []]"

definition nested_note_div :: element where
  "nested_note_div =
     tei ''div'' None None [tei ''p'' None None [tei ''s'' (Some ''Before '') None [nested_note]]]"

section \<open>The linearizer on a heap of objects\<close>

text \<open>
  To say that the linearizer changes no object it was given, the objects are put
  in a heap: a list of objects, the address of an object being its position.
  Objects are never freed. An object is a document tree or a list of strings;
  \<^verbatim>\<open>result: list[str] = []\<close> allocates a new list at the end of the heap, and
  \<^verbatim>\<open>result.append\<close> changes the list at the address of \<^verbatim>\<open>result\<close> in place.
\<close>

datatype py_object = ElementObject element | ListObject "string list"

type_synonym heap = "py_object list"

definition element_at :: "heap \<Rightarrow> nat \<Rightarrow> element option" where
  "element_at h a =
     (if a < length h
      then (case h ! a of ElementObject e \<Rightarrow> Some e | ListObject ls \<Rightarrow> None)
      else None)"

definition list_at :: "heap \<Rightarrow> nat \<Rightarrow> string list option" where
  "list_at h a =
     (if a < length h
      then (case h ! a of ElementObject e \<Rightarrow> None | ListObject ls \<Rightarrow> Some ls)
      else None)"

definition new_list :: "heap \<Rightarrow> nat \<times> heap" where
  "new_list h = (length h, h @ [ListObject []])"

text \<open>
  One iteration of the loop, \<^verbatim>\<open>result\<close> being the list at address \<open>r\<close>: the
  lines the iteration appends are those of \<open>visit\<close>, and they are stored at the
  same address. An iteration that raises has appended nothing, since in every
  branch the assertions stand before the call of \<^verbatim>\<open>append\<close>. The exception is
  returned together with the heap as it is then. \<open>TypeError\<close> stands for the use
  of an address at which no object of the expected class lives; the annotated
  code never does that.
\<close>

definition heap_visit :: "element \<Rightarrow> nat \<Rightarrow> heap \<Rightarrow> error option \<times> heap" where
  "heap_visit element r h =
     (case list_at h r of
        None \<Rightarrow> (Some TypeError, h)
      | Some result \<Rightarrow>
          (case visit element result of
             Inl err \<Rightarrow> (Some err, h)
           | Inr result' \<Rightarrow> (None, h[r := ListObject result'])))"

fun heap_visit_all :: "element list \<Rightarrow> nat \<Rightarrow> heap \<Rightarrow> error option \<times> heap" where
  "heap_visit_all [] r h = (None, h)"
| "heap_visit_all (element # elements) r h =
     (case heap_visit element r h of
        (Some err, h') \<Rightarrow> (Some err, h')
      | (None, h') \<Rightarrow> heap_visit_all elements r h')"

text \<open>
  \<open>heap_process_paper_section a h\<close> is the call of \<^verbatim>\<open>process_paper_section\<close> on the
  element at address \<open>a\<close>: it returns the exception or the address of the list
  it built, and the heap after the call. The nodes of the loop are those of the
  element as it is when the call begins. \<open>returned_lines\<close> reads the strings of
  the list returned.
\<close>

definition heap_process_paper_section :: "nat \<Rightarrow> heap \<Rightarrow> (error + nat) \<times> heap" where
  "heap_process_paper_section a h =
     (case element_at h a of
        None \<Rightarrow> (Inl TypeError, h)
      | Some section \<Rightarrow>
          if tag section = ns @ ''note'' then
            (case new_list h of (r, h') \<Rightarrow> (Inr r, h'))
          else if tag section = ns @ ''figure'' then
            (case new_list h of (r, h') \<Rightarrow> (Inr r, h'))
          else if tag section = ns @ ''div'' then
            (case new_list h of
               (r, h') \<Rightarrow>
                 (case heap_visit_all (iter section) r h' of
                    (Some err, h'') \<Rightarrow> (Inl err, h'')
                  | (None, h'') \<Rightarrow> (Inr r, h'')))
          else (Inl (ValueError (''Unexpected section tag: '' @ tag section)), h))"

definition returned_lines :: "(error + nat) \<times> heap \<Rightarrow> error + string list" where
  "returned_lines run =
     (case fst run of
        Inl err \<Rightarrow> Inl err
      | Inr r \<Rightarrow> (case list_at (snd run) r of None \<Rightarrow> Inl TypeError | Some ls \<Rightarrow> Inr ls))"

text \<open>
  A heap that holds the section \<open>intro_div_sentence\<close> at address 1, between two
  other objects.
\<close>

definition example_heap :: heap where
  "example_heap = [ListObject [''kept''], ElementObject intro_div_sentence, ElementObject div_a]"

section \<open>Properties of the library functions and of the loop\<close>

lemma strip_eq_Nil_or_ends:
  "strip s = [] \<or> (\<not> isspace (hd (strip s)) \<and> \<not> isspace (last (strip s)))"
proof (cases "strip s = []")
  case True
  then show ?thesis by simp
next
  case False
  define ys where "ys = dropWhile isspace s"
  define zs where "zs = dropWhile isspace (rev ys)"
  have s: "strip s = rev zs" by (simp add: strip_def ys_def zs_def)
  with False have zs: "zs \<noteq> []" by simp
  have l: "\<not> isspace (hd zs)" using zs unfolding zs_def by (rule hd_dropWhile)
  have "rev ys = takeWhile isspace (rev ys) @ zs" by (simp add: zs_def)
  then have "ys = rev zs @ rev (takeWhile isspace (rev ys))"
    by (metis rev_append rev_rev_ident)
  with zs have "hd ys = hd (rev zs)" and "ys \<noteq> []"
    by (metis hd_append2 rev_is_Nil_conv, metis Nil_is_append_conv rev_is_Nil_conv)
  moreover have "\<not> isspace (hd ys)" using \<open>ys \<noteq> []\<close> unfolding ys_def by (rule hd_dropWhile)
  ultimately have "\<not> isspace (hd (rev zs))" by simp
  moreover have "last (rev zs) = hd zs" using zs by (simp add: last_rev)
  ultimately show ?thesis using l s by simp
qed

lemma visit_text_result:
  "visit_text e result = (case visit_text e [] of Inl err \<Rightarrow> Inl err | Inr ls \<Rightarrow> Inr (result @ ls))"
  by (simp add: visit_text_def split: option.splits)

lemma visit_tail_result: "visit_tail e result = result @ visit_tail e []"
  by (simp add: visit_tail_def split: option.splits)

lemma visit_result:
  "visit e result = (case visit e [] of Inl err \<Rightarrow> Inl err | Inr ls \<Rightarrow> Inr (result @ ls))"
proof (cases "visit_text e []")
  case (Inl err)
  then show ?thesis using visit_text_result [of e result] by (simp add: visit_def)
next
  case (Inr ls)
  then have "visit_text e result = Inr (result @ ls)"
    using visit_text_result [of e result] by simp
  then show ?thesis
    using Inr visit_tail_result [of e "result @ ls"] visit_tail_result [of e ls]
    by (simp add: visit_def)
qed

lemma visit_all_result:
  "visit_all es result = (case visit_all es [] of Inl err \<Rightarrow> Inl err | Inr ls \<Rightarrow> Inr (result @ ls))"
proof (induction es arbitrary: result)
  case Nil
  then show ?case by simp
next
  case (Cons e es)
  show ?case
  proof (cases "visit e []")
    case (Inl err)
    then show ?thesis using visit_result [of e result] by simp
  next
    case (Inr ls)
    then have "visit e result = Inr (result @ ls)" using visit_result [of e result] by simp
    then show ?thesis
      using Inr Cons.IH [of "result @ ls"] Cons.IH [of ls] by (simp split: sum.splits)
  qed
qed

lemma visit_all_append:
  "visit_all (xs @ ys) result =
     (case visit_all xs result of Inl err \<Rightarrow> Inl err | Inr r \<Rightarrow> visit_all ys r)"
  by (induction xs arbitrary: result) (simp_all split: sum.splits)

lemma visit_error: "visit e result = Inl err \<Longrightarrow> err = AssertionError"
  by (auto simp: visit_def visit_text_def split: if_splits option.splits sum.splits)

lemma visit_all_error: "visit_all es result = Inl err \<Longrightarrow> err = AssertionError"
  by (induction es arbitrary: result) (auto split: sum.splits dest: visit_error)

lemma visit_all_fails:
  "e \<in> set es \<Longrightarrow> visit e [] = Inl err \<Longrightarrow> visit_all es result = Inl AssertionError"
proof (induction es arbitrary: result)
  case Nil
  then show ?case by simp
next
  case (Cons x xs)
  show ?case
  proof (cases "visit x result")
    case (Inl a)
    then show ?thesis using visit_error [OF Inl] by simp
  next
    case (Inr r)
    then have "x \<noteq> e" using Cons.prems(2) visit_result [of x result] by auto
    then show ?thesis using Cons Inr by simp
  qed
qed

lemma iter_self: "e \<in> set (iter e)"
  by (cases e) simp

lemma iter_unfold: "iter e = e # concat (map iter (children e))"
  by (cases e) simp

lemma iter_split:
  "e \<in> set (iter s) \<Longrightarrow> \<exists>pre post. iter s = pre @ iter e @ post"
proof (induction s)
  case (Element t a x l cs)
  show ?case
  proof (cases "e = Element t a x l cs")
    case True
    then have "iter (Element t a x l cs) = [] @ iter e @ []" by simp
    then show ?thesis by blast
  next
    case False
    with Element.prems obtain c where c: "c \<in> set cs" "e \<in> set (iter c)" by auto
    then obtain pre post where p: "iter c = pre @ iter e @ post" using Element.IH by blast
    from c(1) obtain cs1 cs2 where "cs = cs1 @ c # cs2" by (meson split_list)
    then have "iter (Element t a x l cs) =
        (Element t a x l cs # concat (map iter cs1) @ pre) @ iter e @ (post @ concat (map iter cs2))"
      using p by simp
    then show ?thesis by blast
  qed
qed

lemma visit_all_split:
  assumes "visit_all (xs @ ys @ zs) [] = Inr ls"
  shows "\<exists>pre mid post. visit_all xs [] = Inr pre \<and> visit_all ys [] = Inr mid \<and>
           visit_all zs [] = Inr post \<and> ls = pre @ mid @ post"
proof -
  from assms obtain pre where pre: "visit_all xs [] = Inr pre" and r: "visit_all (ys @ zs) pre = Inr ls"
    by (auto simp: visit_all_append split: sum.splits)
  from r obtain r1 where r1: "visit_all ys pre = Inr r1" and r2: "visit_all zs r1 = Inr ls"
    by (auto simp: visit_all_append split: sum.splits)
  from r1 obtain mid where mid: "visit_all ys [] = Inr mid" "r1 = pre @ mid"
    using visit_all_result [of ys pre] by (auto split: sum.splits)
  from r2 obtain post where post: "visit_all zs [] = Inr post" "ls = r1 @ post"
    using visit_all_result [of zs r1] by (auto split: sum.splits)
  show ?thesis using pre mid post by simp
qed

lemma div_node:
  assumes "tag section = ns @ ''div''" and "e \<in> set (iter section)"
    and "process_paper_section section = Inr lines"
  shows "\<exists>xs ys pre mid post. iter section = xs @ e # ys \<and> visit_all xs [] = Inr pre \<and>
           visit e [] = Inr mid \<and> visit_all ys [] = Inr post \<and> lines = pre @ mid @ post"
proof -
  from assms(2) obtain xs ys where s: "iter section = xs @ e # ys" by (meson split_list)
  from assms(1,3) have "visit_all (xs @ [e] @ ys) [] = Inr lines"
    by (simp add: process_paper_section_def s)
  from visit_all_split [OF this] obtain pre mid post where
    "visit_all xs [] = Inr pre" "visit_all [e] [] = Inr mid" "visit_all ys [] = Inr post"
    "lines = pre @ mid @ post" by blast
  moreover from this(2) have "visit e [] = Inr mid" by (simp split: sum.splits)
  ultimately show ?thesis using s by blast
qed

lemma div_subtree:
  assumes "tag section = ns @ ''div''" and "e \<in> set (iter section)"
    and "process_paper_section section = Inr lines"
  shows "\<exists>xs ys pre mid post. iter section = xs @ iter e @ ys \<and> visit_all xs [] = Inr pre \<and>
           visit_all (iter e) [] = Inr mid \<and> visit_all ys [] = Inr post \<and>
           lines = pre @ mid @ post"
proof -
  from iter_split [OF assms(2)] obtain xs ys where s: "iter section = xs @ iter e @ ys" by blast
  from assms(1,3) have "visit_all (xs @ iter e @ ys) [] = Inr lines"
    by (simp add: process_paper_section_def s)
  from visit_all_split [OF this] s show ?thesis by blast
qed

lemma div_fails:
  assumes "tag section = ns @ ''div''" and "e \<in> set (iter section)" and "visit e [] = Inl err"
  shows "process_paper_section section = Inl AssertionError"
  using assms visit_all_fails [OF assms(2,3)] by (simp add: process_paper_section_def)

lemma rough_text_nonempty:
  "acc \<noteq> [] \<Longrightarrow> rough_text acc sections = acc @ concat (map (\<lambda>s. '''' # s) sections)"
  by (induction sections arbitrary: acc) simp_all

lemma rough_text_empty:
  "rough_text [] sections =
     (case dropWhile (\<lambda>s. s = []) sections of
        [] \<Rightarrow> []
      | first # rest \<Rightarrow> first @ concat (map (\<lambda>s. '''' # s) rest))"
proof (induction sections)
  case Nil
  then show ?case by simp
next
  case (Cons s sections)
  then show ?case by (cases "s = []") (simp_all add: rough_text_nonempty)
qed

lemma visit_placeholder:
  assumes "is_heading e \<or> is_formula e" and "etext e = Some t"
  shows "visit e result =
     Inr (visit_tail e
       (result @ [(if is_heading e then ''[[HEADING: '' else ''[[FORMULA: '') @ strip t @ '']]'']))"
  using assms
  by (auto simp: visit_def visit_text_def is_heading_def is_formula_def is_paragraph_def)

lemma visit_placeholder_missing:
  assumes "is_heading e \<or> is_formula e" and "etext e = None"
  shows "visit e result = Inl AssertionError"
  using assms
  by (auto simp: visit_def visit_text_def is_heading_def is_formula_def is_paragraph_def)

lemma visit_paragraph:
  assumes "is_paragraph e"
  shows "visit e result =
     (if etext e \<noteq> None \<or> tail e \<noteq> None then Inl AssertionError else Inr (result @ ['''']))"
  using assms
  by (auto simp: visit_def visit_text_def visit_tail_def is_heading_def is_paragraph_def)

lemma visit_tail_lines:
  "visit_tail e result =
     result @ (case tail e of None \<Rightarrow> [] | Some t \<Rightarrow> if strip t = [] then [] else [strip t])"
  by (simp add: visit_tail_def split: option.splits)

lemma visit_bib_reference:
  "is_bib_reference e \<Longrightarrow> visit e result = Inr (visit_tail e result)"
  by (auto simp: visit_def visit_text_def is_heading_def is_paragraph_def is_formula_def
      is_bib_reference_def)

lemma dropWhile_hd_id: "xs = [] \<or> \<not> P (hd xs) \<Longrightarrow> dropWhile P xs = xs"
  by (cases xs) auto

lemma strip_fixed:
  assumes "l = [] \<or> (\<not> isspace (hd l) \<and> \<not> isspace (last l))"
  shows "strip l = l"
proof -
  have "dropWhile isspace l = l" using assms by (intro dropWhile_hd_id) auto
  moreover have "dropWhile isspace (rev l) = rev l"
    using assms by (intro dropWhile_hd_id) (auto simp: hd_rev)
  ultimately show ?thesis by (simp add: strip_def)
qed

lemma bracket_not_space: "\<not> isspace CHR ''[''" "\<not> isspace CHR '']''"
  by (simp_all add: isspace_def whitespace_def)

lemma visit_text_lines:
  assumes "visit_text e [] = Inr ls"
  shows "(\<forall>l\<in>set ls. l = [] \<or> (\<not> isspace (hd l) \<and> \<not> isspace (last l))) \<and>
         length (filter (\<lambda>l. l = []) ls) = (if is_paragraph e then 1 else 0)"
proof -
  consider (h) "is_heading e" | (p) "\<not> is_heading e" "is_paragraph e"
    | (f) "\<not> is_heading e" "\<not> is_paragraph e" "is_formula e"
    | (b) "\<not> is_heading e" "\<not> is_paragraph e" "\<not> is_formula e" "is_bib_reference e"
    | (o) "\<not> is_heading e" "\<not> is_paragraph e" "\<not> is_formula e" "\<not> is_bib_reference e"
    by blast
  then show ?thesis
  proof cases
    case h
    then have "\<not> is_paragraph e" by (auto simp: is_heading_def is_paragraph_def)
    with h assms show ?thesis
      by (auto simp: visit_text_def bracket_not_space split: option.splits)
  next
    case p
    with assms show ?thesis by (auto simp: visit_text_def split: if_splits)
  next
    case f
    with assms show ?thesis
      by (auto simp: visit_text_def bracket_not_space split: option.splits)
  next
    case b
    with assms show ?thesis by (auto simp: visit_text_def)
  next
    case o
    show ?thesis
    proof (cases "etext e")
      case None
      with o assms show ?thesis by (simp add: visit_text_def)
    next
      case (Some t)
      with o assms strip_eq_Nil_or_ends [of t] show ?thesis
        by (auto simp: visit_text_def split: if_splits)
    qed
  qed
qed

lemma visit_lines:
  assumes "visit e [] = Inr ls"
  shows "(\<forall>l\<in>set ls. l = [] \<or> (\<not> isspace (hd l) \<and> \<not> isspace (last l))) \<and>
         length (filter (\<lambda>l. l = []) ls) = (if is_paragraph e then 1 else 0)"
proof -
  from assms obtain ts where t: "visit_text e [] = Inr ts" and l: "ls = visit_tail e ts"
    by (auto simp: visit_def split: sum.splits)
  have "ls = ts \<or> (\<exists>x. ls = ts @ [strip x] \<and> strip x \<noteq> [])"
    using l by (auto simp: visit_tail_def split: option.splits)
  then show ?thesis
  proof
    assume "ls = ts"
    with visit_text_lines [OF t] show ?thesis by simp
  next
    assume "\<exists>x. ls = ts @ [strip x] \<and> strip x \<noteq> []"
    then obtain x where x: "ls = ts @ [strip x]" "strip x \<noteq> []" by blast
    with strip_eq_Nil_or_ends [of x]
    have "\<not> isspace (hd (strip x)) \<and> \<not> isspace (last (strip x))" by simp
    with visit_text_lines [OF t] x show ?thesis by auto
  qed
qed

lemma visit_all_lines:
  "visit_all es [] = Inr ls \<Longrightarrow>
     (\<forall>l\<in>set ls. l = [] \<or> (\<not> isspace (hd l) \<and> \<not> isspace (last l))) \<and>
     length (filter (\<lambda>l. l = []) ls) = length (filter is_paragraph es)"
proof (induction es arbitrary: ls)
  case Nil
  then show ?case by simp
next
  case (Cons e es)
  from Cons.prems obtain mid where m: "visit e [] = Inr mid" and r: "visit_all es mid = Inr ls"
    by (auto split: sum.splits)
  from r obtain post where p: "visit_all es [] = Inr post" and l: "ls = mid @ post"
    using visit_all_result [of es mid] by (auto split: sum.splits)
  from visit_lines [OF m] Cons.IH [OF p] l show ?case by auto
qed

lemma heap_visit_all_run:
  assumes "list_at h r = Some ls"
  shows "\<exists>ls'. heap_visit_all es r h =
           (case visit_all es ls of Inl err \<Rightarrow> Some err | Inr out \<Rightarrow> None, h[r := ListObject ls']) \<and>
         (\<forall>out. visit_all es ls = Inr out \<longrightarrow> ls' = out)"
  using assms
proof (induction es arbitrary: h ls)
  case Nil
  then have "h[r := ListObject ls] = h"
    by (auto simp: list_at_def list_update_same_conv split: if_splits py_object.splits)
  then have "heap_visit_all [] r h = (case visit_all [] ls of Inl err \<Rightarrow> Some err | Inr out \<Rightarrow> None,
      h[r := ListObject ls]) \<and> (\<forall>out. visit_all [] ls = Inr out \<longrightarrow> ls = out)"
    by simp
  then show ?case by blast
next
  case (Cons e es)
  show ?case
  proof (cases "visit e ls")
    case (Inl err)
    from Cons.prems have "h[r := ListObject ls] = h"
      by (auto simp: list_at_def list_update_same_conv split: if_splits py_object.splits)
    with Inl Cons.prems have "heap_visit_all (e # es) r h =
        (case visit_all (e # es) ls of Inl err \<Rightarrow> Some err | Inr out \<Rightarrow> None,
         h[r := ListObject ls]) \<and> (\<forall>out. visit_all (e # es) ls = Inr out \<longrightarrow> ls = out)"
      by (simp add: heap_visit_def)
    then show ?thesis by blast
  next
    case (Inr mid)
    from Cons.prems have r: "r < length h" by (simp add: list_at_def split: if_splits)
    then have "list_at (h[r := ListObject mid]) r = Some mid" by (simp add: list_at_def)
    from Cons.IH [OF this, of ] obtain ls' where
      "heap_visit_all es r (h[r := ListObject mid]) =
         (case visit_all es mid of Inl err \<Rightarrow> Some err | Inr out \<Rightarrow> None,
          h[r := ListObject mid, r := ListObject ls'])"
      "\<forall>out. visit_all es mid = Inr out \<longrightarrow> ls' = out" by blast
    with Inr Cons.prems have "heap_visit_all (e # es) r h =
        (case visit_all (e # es) ls of Inl err \<Rightarrow> Some err | Inr out \<Rightarrow> None,
         h[r := ListObject ls']) \<and> (\<forall>out. visit_all (e # es) ls = Inr out \<longrightarrow> ls' = out)"
      by (simp add: heap_visit_def)
    then show ?thesis by blast
  qed
qed

lemma heap_run:
  assumes "element_at h a = Some section"
  shows "take (length h) (snd (heap_process_paper_section a h)) = h \<and>
         returned_lines (heap_process_paper_section a h) = process_paper_section section"
proof -
  consider (skip) "tag section = ns @ ''note'' \<or> tag section = ns @ ''figure''"
    | (div) "tag section = ns @ ''div''"
    | (other) "tag section \<noteq> ns @ ''note''" "tag section \<noteq> ns @ ''figure''"
        "tag section \<noteq> ns @ ''div''" by blast
  then show ?thesis
  proof cases
    case skip
    with assms show ?thesis
      by (auto simp: heap_process_paper_section_def new_list_def returned_lines_def list_at_def
          process_paper_section_def)
  next
    case other
    with assms show ?thesis
      by (simp add: heap_process_paper_section_def returned_lines_def process_paper_section_def)
  next
    case div
    have "list_at (h @ [ListObject []]) (length h) = Some []" by (simp add: list_at_def)
    from heap_visit_all_run [OF this, of "iter section"] obtain ls' where
      run: "heap_visit_all (iter section) (length h) (h @ [ListObject []]) =
         (case visit_all (iter section) [] of Inl err \<Rightarrow> Some err | Inr out \<Rightarrow> None,
          h @ [ListObject ls'])"
      and out: "\<forall>out. visit_all (iter section) [] = Inr out \<longrightarrow> ls' = out" by auto
    show ?thesis
    proof (cases "visit_all (iter section) []")
      case (Inl err)
      with assms div run show ?thesis
        by (simp add: heap_process_paper_section_def new_list_def returned_lines_def
            process_paper_section_def)
    next
      case (Inr lines)
      with out have "ls' = lines" by simp
      with Inr assms div run show ?thesis
        by (simp add: heap_process_paper_section_def new_list_def returned_lines_def
            process_paper_section_def list_at_def)
    qed
  qed
qed

lemma element_at_take:
  assumes "element_at h a = Some e" and "take (length h) h' = h"
  shows "element_at h' a = Some e"
proof -
  from assms(1) have a: "a < length h" by (simp add: element_at_def split: if_splits)
  have "length (take (length h) h') = length h" using assms(2) by simp
  then have "length h \<le> length h'" by simp
  moreover have "h' ! a = h ! a" using a assms(2) by (metis nth_take)
  ultimately show ?thesis using assms(1) a by (simp add: element_at_def)
qed

section \<open>The end-to-end example\<close>

text \<open>
  C1, as the specification states it, fails: in the example the paragraph element
  has the text \<open>Hello \<close> of its own, so the assertion of line 95 aborts the run
  right after the heading has been appended. Neither the section linearizer nor
  the assembler returns the five lines. Read without the namespace, the section
  is rejected for its tag.
\<close>

theorem intro_div_counterexample:
  "process_paper_section intro_div = Inl AssertionError \<and>
   assemble (tei ''body'' None None [intro_div]) \<noteq>
     Inr [''[[HEADING: Intro]]'', '''', ''Hello '', ''[[FORMULA: x=1]]'', '' world.''] \<and>
   process_paper_section plain_intro_div = Inl (ValueError ''Unexpected section tag: div'')"
  by code_simp

text \<open>
  C1 as amended: for the body with the one section of the example, its tags in
  the TEI namespace, the run aborts with a failed assertion; when the content of
  the paragraph stands inside a sentence element, linearization succeeds and
  yields the heading placeholder, the paragraph marker, and the three fragments,
  each stripped of surrounding whitespace.
\<close>

theorem intro_div_linearized:
  "assemble (tei ''body'' None None [intro_div]) = Inl AssertionError \<and>
   process_paper_section intro_div_sentence =
     Inr [''[[HEADING: Intro]]'', '''', ''Hello'', ''[[FORMULA: x=1]]'', ''world.''] \<and>
   assemble (tei ''body'' None None [intro_div_sentence]) =
     Inr [''[[HEADING: Intro]]'', '''', ''Hello'', ''[[FORMULA: x=1]]'', ''world.'']"
  by code_simp

section \<open>Separators between sections\<close>

text \<open>
  C2, as the specification states it, fails: the loop of lines 156 to 159 tests
  only whether the text gathered so far is empty, not whether the section at hand
  has lines. A note between two sections with lines therefore adds a separator of
  its own, and the two sections end up two empty lines apart.
\<close>

theorem note_between_counterexample:
  "assemble (tei ''body'' None None [div_a, note_b, div_c]) =
     Inr [''[[HEADING: A]]'', '''', '''', ''[[HEADING: C]]''] \<and>
   assemble (tei ''body'' None None [div_a, note_b, div_c]) \<noteq>
     Inr [''[[HEADING: A]]'', '''', ''[[HEADING: C]]'']"
  by code_simp

text \<open>
  C2 as amended: the assembler puts an empty line before the lines of a section
  whenever the text gathered so far is not empty, whether or not that section has
  lines. So the assembled text is the first section that has lines, followed by
  every later section, each with one empty line before it. Two sections with
  lines that follow each other are one empty line apart; a note between them adds
  one more.
\<close>

theorem assemble_separators:
  assumes "rough_sections (children body_element) = Inr sections"
  shows "assemble body_element =
     Inr (case dropWhile (\<lambda>s. s = []) sections of
            [] \<Rightarrow> []
          | first # rest \<Rightarrow> first @ concat (map (\<lambda>s. '''' # s) rest))"
  using assms by (simp add: assemble_def rough_text_empty)

theorem assemble_separators_witness:
  "rough_sections (children (tei ''body'' None None [div_a, div_c])) =
     Inr [[''[[HEADING: A]]''], [''[[HEADING: C]]'']] \<and>
   assemble (tei ''body'' None None [div_a, div_c]) =
     Inr [''[[HEADING: A]]'', '''', ''[[HEADING: C]]''] \<and>
   rough_sections (children (tei ''body'' None None [div_a, note_b, div_c])) =
     Inr [[''[[HEADING: A]]''], [], [''[[HEADING: C]]'']] \<and>
   assemble (tei ''body'' None None [div_a, note_b, div_c]) =
     Inr [''[[HEADING: A]]'', '''', '''', ''[[HEADING: C]]'']"
proof -
  have two: "rough_sections (children (tei ''body'' None None [div_a, div_c])) =
     Inr [[''[[HEADING: A]]''], [''[[HEADING: C]]'']]"
    by code_simp
  have three: "rough_sections (children (tei ''body'' None None [div_a, note_b, div_c])) =
     Inr [[''[[HEADING: A]]''], [], [''[[HEADING: C]]'']]"
    by code_simp
  show ?thesis
    using two three assemble_separators [OF two] assemble_separators [OF three] by simp
qed

section \<open>Headings and formulas\<close>

text \<open>
  C3, as the specification states it, fails: lines 92 and 99 assert that the text
  of a heading or formula is present, not that something is left of it after
  stripping. A heading whose text is whitespace passes the assertion and yields
  the placeholder with nothing between the colon and the brackets.
\<close>

theorem blank_heading_counterexample:
  "strip '' '' = [] \<and> process_paper_section blank_head_div = Inr [''[[HEADING: ]]'']"
  by code_simp

text \<open>
  C3 as amended: for every heading or formula node visited in the traversal of a
  div, the linearizer requires the text of the node to be present; when it is
  missing the run aborts with a failed assertion. When it is present, also when
  it is whitespace only, the visit appends exactly one line, the placeholder
  around the stripped text, before the tail of the node is handled, and that line
  stands in the result of the section. The formula \<open>E = m c 2\<close> yields exactly the
  line \<open>[[FORMULA: E = m c 2]]\<close>.
\<close>

theorem placeholder_lines:
  assumes "tag section = ns @ ''div''" and "e \<in> set (iter section)"
    and "is_heading e \<or> is_formula e"
  shows "(etext e = None \<longrightarrow> process_paper_section section = Inl AssertionError) \<and>
    (\<forall>t. etext e = Some t \<longrightarrow>
       visit e result =
         Inr (visit_tail e
           (result @
            [(if is_heading e then ''[[HEADING: '' else ''[[FORMULA: '') @ strip t @ '']]'']))) \<and>
    (\<forall>lines. process_paper_section section = Inr lines \<longrightarrow>
       (\<exists>t pre post. etext e = Some t \<and>
          lines = pre @
            [(if is_heading e then ''[[HEADING: '' else ''[[FORMULA: '') @ strip t @ '']]''] @
            post))"
proof (intro conjI allI impI)
  assume "etext e = None"
  then have "visit e [] = Inl AssertionError" using assms(3) by (rule visit_placeholder_missing [rotated])
  then show "process_paper_section section = Inl AssertionError"
    using assms(1,2) by (rule div_fails [rotated 2])
next
  fix t assume "etext e = Some t"
  with assms(3) show "visit e result =
         Inr (visit_tail e
           (result @
            [(if is_heading e then ''[[HEADING: '' else ''[[FORMULA: '') @ strip t @ '']]'']))"
    by (rule visit_placeholder)
next
  fix lines assume ok: "process_paper_section section = Inr lines"
  from div_node [OF assms(1,2) ok] obtain pre mid post where
    v: "visit e [] = Inr mid" and l: "lines = pre @ mid @ post" by blast
  from v obtain t where t: "etext e = Some t"
    using visit_placeholder_missing [OF assms(3), of "[]"] by (cases "etext e") auto
  let ?line = "(if is_heading e then ''[[HEADING: '' else ''[[FORMULA: '') @ strip t @ '']]''"
  have "mid = visit_tail e [?line]"
    using v visit_placeholder [OF assms(3) t, of "[]"] by simp
  then have "mid = [?line] @ visit_tail e []" using visit_tail_result [of e "[?line]"] by simp
  with l have "lines = pre @ [?line] @ (visit_tail e [] @ post)" by simp
  with t show "\<exists>t pre post. etext e = Some t \<and>
          lines = pre @
            [(if is_heading e then ''[[HEADING: '' else ''[[FORMULA: '') @ strip t @ '']]''] @
            post" by blast
qed

theorem placeholder_lines_witness:
  "tag empty_head_div = ns @ ''div'' \<and> empty_head \<in> set (iter empty_head_div) \<and>
   (is_heading empty_head \<or> is_formula empty_head) \<and> etext empty_head = None \<and>
   process_paper_section empty_head_div = Inl AssertionError \<and>
   tag formula_div = ns @ ''div'' \<and> energy_formula \<in> set (iter formula_div) \<and>
   (is_heading energy_formula \<or> is_formula energy_formula) \<and>
   etext energy_formula = Some ''E = m c 2'' \<and>
   visit energy_formula [] = Inr [''[[FORMULA: E = m c 2]]''] \<and>
   process_paper_section formula_div = Inr [''[[FORMULA: E = m c 2]]''] \<and>
   (\<exists>t pre post. etext energy_formula = Some t \<and>
      [''[[FORMULA: E = m c 2]]''] = pre @ [''[[FORMULA: '' @ strip t @ '']]''] @ post)"
proof -
  have d: "tag empty_head_div = ns @ ''div''" "tag formula_div = ns @ ''div''"
    by (simp_all add: empty_head_div_def formula_div_def tei_def)
  have m1: "empty_head \<in> set (iter empty_head_div)"
    by (simp add: empty_head_div_def empty_head_def tei_def)
  have m2: "energy_formula \<in> set (iter formula_div)"
    by (simp add: formula_div_def energy_formula_def tei_def)
  have k1: "is_heading empty_head \<or> is_formula empty_head"
    by (simp add: is_heading_def empty_head_def tei_def)
  have k2: "is_heading energy_formula \<or> is_formula energy_formula"
    by (simp add: is_formula_def energy_formula_def tei_def)
  have nh: "\<not> is_heading energy_formula"
    by (simp add: is_heading_def energy_formula_def tei_def)
  have t1: "etext empty_head = None" by (simp add: empty_head_def tei_def)
  have t2: "etext energy_formula = Some ''E = m c 2''" by (simp add: energy_formula_def tei_def)
  have s: "strip ''E = m c 2'' = ''E = m c 2''" by code_simp
  have vt: "visit_tail energy_formula [''[[FORMULA: E = m c 2]]''] = [''[[FORMULA: E = m c 2]]'']"
    by code_simp
  have ok: "process_paper_section formula_div = Inr [''[[FORMULA: E = m c 2]]'']" by code_simp
  note a = placeholder_lines [OF d(1) m1 k1, of "[]"]
  note f = placeholder_lines [OF d(2) m2 k2, of "[]"]
  from a t1 have c1: "process_paper_section empty_head_div = Inl AssertionError" by blast
  from f t2 nh s vt have c2: "visit energy_formula [] = Inr [''[[FORMULA: E = m c 2]]'']"
    by simp
  from f ok nh have c3: "\<exists>t pre post. etext energy_formula = Some t \<and>
      [''[[FORMULA: E = m c 2]]''] = pre @ [''[[FORMULA: '' @ strip t @ '']]''] @ post"
    by simp
  show ?thesis using d m1 m2 k1 k2 t1 t2 c1 c2 ok c3 by blast
qed

section \<open>Paragraph boundaries\<close>

text \<open>
  C4: a slot of a parsed document is \<^verbatim>\<open>None\<close> when no characters stand there, so
  it never holds the empty string; this is the hypothesis on the two slots of the
  paragraph node \<open>e\<close>. If \<open>e\<close> has text or a tail that is not empty, the
  linearization of the section aborts with a failed assertion. Otherwise the visit
  of \<open>e\<close> appends exactly one empty line; the nodes visited right after \<open>e\<close> are
  its descendants in document order, and in the result of the section the empty
  line is followed by their lines.
\<close>

theorem paragraph_boundary:
  assumes "tag section = ns @ ''div''" and "e \<in> set (iter section)" and "is_paragraph e"
    and "etext e \<noteq> Some []" and "tail e \<noteq> Some []"
  shows "if (\<exists>t. etext e = Some t \<and> t \<noteq> []) \<or> (\<exists>t. tail e = Some t \<and> t \<noteq> [])
    then process_paper_section section = Inl AssertionError
    else visit e result = Inr (result @ ['''']) \<and>
      (\<exists>before after.
         iter section = before @ e # concat (map iter (children e)) @ after \<and>
         (\<forall>lines. process_paper_section section = Inr lines \<longrightarrow>
            (\<exists>pre inner post.
               visit_all before [] = Inr pre \<and>
               visit_all (concat (map iter (children e))) [] = Inr inner \<and>
               visit_all after [] = Inr post \<and>
               lines = pre @ [''''] @ inner @ post)))"
proof (cases "etext e = None \<and> tail e = None")
  case False
  then have "visit e [] = Inl AssertionError"
    using visit_paragraph [OF assms(3), of "[]"] by auto
  then have "process_paper_section section = Inl AssertionError"
    using assms(1,2) by (rule div_fails [rotated 2])
  moreover have "(\<exists>t. etext e = Some t \<and> t \<noteq> []) \<or> (\<exists>t. tail e = Some t \<and> t \<noteq> [])"
    using False assms(4,5) by (cases "etext e"; cases "tail e") auto
  ultimately show ?thesis by simp
next
  case True
  then have v: "visit e r = Inr (r @ [''''])" for r
    using visit_paragraph [OF assms(3), of r] by simp
  from iter_split [OF assms(2)] obtain before after where
    "iter section = before @ iter e @ after" by blast
  then have s: "iter section = before @ e # concat (map iter (children e)) @ after"
    by (simp add: iter_unfold [of e])
  have "\<exists>pre inner post.
               visit_all before [] = Inr pre \<and>
               visit_all (concat (map iter (children e))) [] = Inr inner \<and>
               visit_all after [] = Inr post \<and>
               lines = pre @ [''''] @ inner @ post"
    if ok: "process_paper_section section = Inr lines" for lines
  proof -
    from ok assms(1) s
    have "visit_all (before @ (e # concat (map iter (children e))) @ after) [] = Inr lines"
      by (simp add: process_paper_section_def)
    from visit_all_split [OF this] obtain pre mid post where
      p: "visit_all before [] = Inr pre" and
      m: "visit_all (e # concat (map iter (children e))) [] = Inr mid" and
      q: "visit_all after [] = Inr post" and l: "lines = pre @ mid @ post" by blast
    from m v [of "[]"] have "visit_all (concat (map iter (children e))) [''''] = Inr mid"
      by simp
    then obtain inner where
      i: "visit_all (concat (map iter (children e))) [] = Inr inner" and "mid = [''''] @ inner"
      using visit_all_result [of "concat (map iter (children e))" "['''']"]
      by (auto split: sum.splits)
    with p q l show ?thesis by simp
  qed
  with s v [of result] True show ?thesis by auto
qed

theorem paragraph_boundary_witness:
  "tag raw_text_div = ns @ ''div'' \<and> raw_text_p \<in> set (iter raw_text_div) \<and>
   is_paragraph raw_text_p \<and> etext raw_text_p = Some ''One.'' \<and> tail raw_text_p = None \<and>
   process_paper_section raw_text_div = Inl AssertionError \<and>
   tag sentence_div = ns @ ''div'' \<and> sentence_p \<in> set (iter sentence_div) \<and>
   is_paragraph sentence_p \<and> etext sentence_p = None \<and> tail sentence_p = None \<and>
   visit sentence_p [] = Inr [''''] \<and>
   process_paper_section sentence_div = Inr ['''', ''One.'']"
proof -
  have d: "tag raw_text_div = ns @ ''div''" "tag sentence_div = ns @ ''div''"
    by (simp_all add: raw_text_div_def sentence_div_def tei_def)
  have m1: "raw_text_p \<in> set (iter raw_text_div)"
    by (simp add: raw_text_div_def raw_text_p_def tei_def)
  have m2: "sentence_p \<in> set (iter sentence_div)"
    by (simp add: sentence_div_def sentence_p_def tei_def)
  have p1: "is_paragraph raw_text_p" and p2: "is_paragraph sentence_p"
    by (simp_all add: is_paragraph_def raw_text_p_def sentence_p_def tei_def)
  have x1: "etext raw_text_p = Some ''One.''" "tail raw_text_p = None"
    and x2: "etext sentence_p = None" "tail sentence_p = None"
    by (simp_all add: raw_text_p_def sentence_p_def tei_def)
  have w1: "etext raw_text_p \<noteq> Some []" "tail raw_text_p \<noteq> Some []"
    and w2: "etext sentence_p \<noteq> Some []" "tail sentence_p \<noteq> Some []"
    using x1 x2 by simp_all
  have c1: "process_paper_section raw_text_div = Inl AssertionError"
    using paragraph_boundary [OF d(1) m1 p1 w1, of "[]"] x1 by simp
  have c2: "visit sentence_p [] = Inr ['''']"
    using paragraph_boundary [OF d(2) m2 p2 w2, of "[]"] x2 by simp
  have c3: "process_paper_section sentence_div = Inr ['''', ''One.'']" by code_simp
  show ?thesis using d m1 m2 p1 p2 x1 x2 c1 c2 c3 by simp
qed

section \<open>Tail text and bibliographic references\<close>

text \<open>
  C5: the visit of a bibliographic reference appends nothing for the text of the
  node, and appends its stripped tail as one line when that is not empty. For
  every node the lines of a successful visit are what the \<^verbatim>\<open>if\<close> chain appends
  for the text, followed by the tail line, whatever the role of the node. In the
  result of a div the tail line of a reference stands between the lines of the
  nodes before it and those of the nodes after it.
\<close>

theorem bib_reference_tail:
  "(is_bib_reference e \<longrightarrow>
      visit e result =
        Inr (result @
          (case tail e of None \<Rightarrow> [] | Some t \<Rightarrow> if strip t = [] then [] else [strip t]))) \<and>
   (\<forall>r. visit e result = Inr r \<longrightarrow>
      (\<exists>r'. visit_text e result = Inr r' \<and>
         r = r' @
           (case tail e of None \<Rightarrow> [] | Some t \<Rightarrow> if strip t = [] then [] else [strip t]))) \<and>
   (tag section = ns @ ''div'' \<and> e \<in> set (iter section) \<and> is_bib_reference e \<longrightarrow>
      (\<forall>lines. process_paper_section section = Inr lines \<longrightarrow>
         (\<exists>before after pre post.
            iter section = before @ e # after \<and>
            visit_all before [] = Inr pre \<and> visit_all after [] = Inr post \<and>
            lines = pre @
              (case tail e of None \<Rightarrow> [] | Some t \<Rightarrow> if strip t = [] then [] else [strip t]) @
              post)))"
proof (intro conjI allI impI)
  assume "is_bib_reference e"
  then show "visit e result =
        Inr (result @
          (case tail e of None \<Rightarrow> [] | Some t \<Rightarrow> if strip t = [] then [] else [strip t]))"
    by (simp add: visit_bib_reference visit_tail_lines)
next
  fix r assume "visit e result = Inr r"
  then show "\<exists>r'. visit_text e result = Inr r' \<and>
         r = r' @
           (case tail e of None \<Rightarrow> [] | Some t \<Rightarrow> if strip t = [] then [] else [strip t])"
    by (auto simp: visit_def visit_tail_lines split: sum.splits)
next
  fix lines
  assume a: "tag section = ns @ ''div'' \<and> e \<in> set (iter section) \<and> is_bib_reference e"
    and ok: "process_paper_section section = Inr lines"
  from a have d: "tag section = ns @ ''div''" and m: "e \<in> set (iter section)"
    and b: "is_bib_reference e" by simp_all
  from div_node [OF d m ok] obtain xs ys pre mid post where
    s: "iter section = xs @ e # ys" "visit_all xs [] = Inr pre" "visit_all ys [] = Inr post"
    and v: "visit e [] = Inr mid" and l: "lines = pre @ mid @ post" by blast
  from v b have
    "mid = (case tail e of None \<Rightarrow> [] | Some t \<Rightarrow> if strip t = [] then [] else [strip t])"
    by (simp add: visit_bib_reference visit_tail_lines)
  with s l show "\<exists>before after pre post.
            iter section = before @ e # after \<and>
            visit_all before [] = Inr pre \<and> visit_all after [] = Inr post \<and>
            lines = pre @
              (case tail e of None \<Rightarrow> [] | Some t \<Rightarrow> if strip t = [] then [] else [strip t]) @
              post" by blast
qed

theorem bib_reference_tail_witness:
  "is_bib_reference bibr \<and> tail bibr = Some '', it holds.'' \<and>
   visit bibr [''As shown''] = Inr [''As shown'', '', it holds.''] \<and>
   visit_text bibr [''As shown''] = Inr [''As shown''] \<and>
   tag cited_div = ns @ ''div'' \<and> bibr \<in> set (iter cited_div) \<and>
   process_paper_section cited_div = Inr [''As shown'', '', it holds.'']"
proof -
  have b: "is_bib_reference bibr" by code_simp
  have t: "tail bibr = Some '', it holds.''" by (simp add: bibr_def)
  have s: "strip '', it holds.'' = '', it holds.''" by code_simp
  have d: "tag cited_div = ns @ ''div''" by (simp add: cited_div_def tei_def)
  have m: "bibr \<in> set (iter cited_div)" by (simp add: cited_div_def bibr_def tei_def)
  note th = bib_reference_tail [of bibr "[''As shown'']" cited_div]
  from th b t s have v: "visit bibr [''As shown''] = Inr [''As shown'', '', it holds.'']"
    by simp
  with th t s have vt: "visit_text bibr [''As shown''] = Inr [''As shown'']" by simp
  have ok: "process_paper_section cited_div = Inr [''As shown'', '', it holds.'']"
    by code_simp
  show ?thesis using b t v vt d m ok by simp
qed

section \<open>Dispatch on the tag of the section\<close>

text \<open>
  C6: a note or figure section yields the empty sequence whatever its subtree
  holds, so nothing below it is visited; a div section is traversed, the loop
  running over the nodes of \<open>iter\<close> from the empty list; any other tag raises
  the \<^verbatim>\<open>ValueError\<close> whose message names the tag.
\<close>

theorem section_dispatch:
  "(tag section = ns @ ''note'' \<or> tag section = ns @ ''figure'' \<longrightarrow>
      process_paper_section section = Inr []) \<and>
   (tag section = ns @ ''div'' \<longrightarrow>
      process_paper_section section = visit_all (iter section) []) \<and>
   (tag section \<noteq> ns @ ''note'' \<and> tag section \<noteq> ns @ ''figure'' \<and> tag section \<noteq> ns @ ''div'' \<longrightarrow>
      process_paper_section section =
        Inl (ValueError (''Unexpected section tag: '' @ tag section)))"
  by (simp add: process_paper_section_def)

theorem section_dispatch_witness:
  "tag draft_note = ns @ ''note'' \<and> process_paper_section draft_note = Inr [] \<and>
   tag draft_figure = ns @ ''figure'' \<and> process_paper_section draft_figure = Inr [] \<and>
   tag draft_div = ns @ ''div'' \<and> children draft_div = children draft_note \<and>
   visit_all (iter draft_div) [] = Inl AssertionError \<and>
   process_paper_section draft_div = Inl AssertionError \<and>
   tag table_section = ns @ ''table'' \<and>
   process_paper_section table_section =
     Inl (ValueError ''Unexpected section tag: {http://www.tei-c.org/ns/1.0}table'')"
proof -
  have n: "tag draft_note = ns @ ''note''" and f: "tag draft_figure = ns @ ''figure''"
    and d: "tag draft_div = ns @ ''div''" and t: "tag table_section = ns @ ''table''"
    and c: "children draft_div = children draft_note"
    by (simp_all add: draft_note_def draft_figure_def draft_div_def table_section_def tei_def)
  have v: "visit_all (iter draft_div) [] = Inl AssertionError" by code_simp
  have m: "''Unexpected section tag: '' @ ns @ ''table'' =
    ''Unexpected section tag: {http://www.tei-c.org/ns/1.0}table''" by (simp add: ns_def)
  show ?thesis
    using section_dispatch [of draft_note] section_dispatch [of draft_figure]
      section_dispatch [of draft_div] section_dispatch [of table_section] n f d t c v m
    by simp
qed

section \<open>Paragraphs with whitespace of their own\<close>

text \<open>
  C10: the visit of a paragraph node succeeds exactly when its text and its tail
  are both absent. A text or a tail that is present aborts the run with a failed
  assertion, also when it is whitespace only and would strip to the empty string,
  and so does the linearization of every div in which such a paragraph is
  visited.
\<close>

theorem paragraph_slots_absent:
  assumes "is_paragraph e"
  shows "((\<exists>r. visit e result = Inr r) \<longleftrightarrow> etext e = None \<and> tail e = None) \<and>
    ((etext e = Some t \<or> tail e = Some t) \<and> strip t = [] \<longrightarrow>
       visit e result = Inl AssertionError) \<and>
    (tag section = ns @ ''div'' \<and> e \<in> set (iter section) \<and>
     (etext e \<noteq> None \<or> tail e \<noteq> None) \<longrightarrow>
       process_paper_section section = Inl AssertionError)"
proof (intro conjI impI)
  show "(\<exists>r. visit e result = Inr r) \<longleftrightarrow> etext e = None \<and> tail e = None"
    using visit_paragraph [OF assms, of result] by auto
next
  assume "(etext e = Some t \<or> tail e = Some t) \<and> strip t = []"
  then show "visit e result = Inl AssertionError"
    using visit_paragraph [OF assms, of result] by auto
next
  assume a: "tag section = ns @ ''div'' \<and> e \<in> set (iter section) \<and>
     (etext e \<noteq> None \<or> tail e \<noteq> None)"
  then have "visit e [] = Inl AssertionError"
    using visit_paragraph [OF assms, of "[]"] by auto
  with a show "process_paper_section section = Inl AssertionError"
    using div_fails [of _ e AssertionError] by simp
qed

theorem paragraph_slots_absent_witness:
  "strip '' '' = [] \<and>
   is_paragraph blank_text_p \<and> etext blank_text_p = Some '' '' \<and>
   visit blank_text_p [] = Inl AssertionError \<and>
   tag blank_text_div = ns @ ''div'' \<and> blank_text_p \<in> set (iter blank_text_div) \<and>
   process_paper_section blank_text_div = Inl AssertionError \<and>
   is_paragraph blank_tail_p \<and> tail blank_tail_p = Some '' '' \<and>
   visit blank_tail_p [] = Inl AssertionError \<and>
   tag blank_tail_div = ns @ ''div'' \<and> blank_tail_p \<in> set (iter blank_tail_div) \<and>
   process_paper_section blank_tail_div = Inl AssertionError \<and>
   is_paragraph empty_p \<and> etext empty_p = None \<and> tail empty_p = None \<and>
   (\<exists>r. visit empty_p [] = Inr r)"
proof -
  have s: "strip '' '' = []" by code_simp
  have p: "is_paragraph blank_text_p" "is_paragraph blank_tail_p" "is_paragraph empty_p"
    by (simp_all add: is_paragraph_def blank_text_p_def blank_tail_p_def empty_p_def tei_def)
  have d: "tag blank_text_div = ns @ ''div''" "tag blank_tail_div = ns @ ''div''"
    by (simp_all add: blank_text_div_def blank_tail_div_def tei_def)
  have m: "blank_text_p \<in> set (iter blank_text_div)" "blank_tail_p \<in> set (iter blank_tail_div)"
    by (simp_all add: blank_text_div_def blank_tail_div_def blank_text_p_def blank_tail_p_def
        tei_def)
  have x: "etext blank_text_p = Some '' ''" "tail blank_tail_p = Some '' ''"
    "etext empty_p = None" "tail empty_p = None"
    by (simp_all add: blank_text_p_def blank_tail_p_def empty_p_def tei_def)
  show ?thesis
    using paragraph_slots_absent [OF p(1), of "[]" "'' ''" blank_text_div]
      paragraph_slots_absent [OF p(2), of "[]" "'' ''" blank_tail_div]
      paragraph_slots_absent [OF p(3), of "[]"] s p d m x
    by simp
qed

section \<open>Stripped lines\<close>

text \<open>
  C7: every line of a successfully linearized section is empty or begins and ends
  with a character that is not whitespace, so stripping it changes nothing. The
  empty lines are the paragraph markers and nothing else: a div yields as many
  empty lines as paragraph nodes are visited, the other sections none, so no
  fragment that strips to the empty string is emitted.
\<close>

theorem lines_stripped:
  assumes "process_paper_section section = Inr lines"
  shows "(\<forall>l\<in>set lines. l = [] \<or> (\<not> isspace (hd l) \<and> \<not> isspace (last l))) \<and>
    (\<forall>l\<in>set lines. strip l = l) \<and>
    length (filter (\<lambda>l. l = []) lines) =
      (if tag section = ns @ ''div'' then length (filter is_paragraph (iter section)) else 0)"
proof (cases "tag section = ns @ ''div''")
  case True
  with assms have "visit_all (iter section) [] = Inr lines"
    by (simp add: process_paper_section_def)
  from visit_all_lines [OF this] True show ?thesis by (auto intro: strip_fixed)
next
  case False
  with assms have "lines = []" by (auto simp: process_paper_section_def split: if_splits)
  with False show ?thesis by simp
qed

theorem lines_stripped_witness:
  "process_paper_section intro_div_sentence =
     Inr [''[[HEADING: Intro]]'', '''', ''Hello'', ''[[FORMULA: x=1]]'', ''world.''] \<and>
   map strip [''[[HEADING: Intro]]'', '''', ''Hello'', ''[[FORMULA: x=1]]'', ''world.''] =
     [''[[HEADING: Intro]]'', '''', ''Hello'', ''[[FORMULA: x=1]]'', ''world.''] \<and>
   length (filter (\<lambda>l. l = [])
     [''[[HEADING: Intro]]'', '''', ''Hello'', ''[[FORMULA: x=1]]'', ''world.'']) =
     length (filter is_paragraph (iter intro_div_sentence))"
proof -
  have ok: "process_paper_section intro_div_sentence =
     Inr [''[[HEADING: Intro]]'', '''', ''Hello'', ''[[FORMULA: x=1]]'', ''world.'']"
    by code_simp
  have d: "tag intro_div_sentence = ns @ ''div''" by (simp add: intro_div_sentence_def tei_def)
  from lines_stripped [OF ok] d ok show ?thesis by simp
qed

section \<open>Notes and figures inside a div\<close>

text \<open>
  C9, as the specification states it, fails in the order it gives: the loop
  appends the tail of a node right after the node's text, before it comes to the
  node's descendants. For a note with a child element and a tail the line of the
  tail stands before the lines of the child; in the document it follows them.
\<close>

theorem nested_note_counterexample:
  "process_paper_section nested_note_div =
     Inr ['''', ''Before'', ''see'', ''after.'', ''there'', ''too''] \<and>
   process_paper_section nested_note_div \<noteq>
     Inr ['''', ''Before'', ''see'', ''there'', ''too'', ''after.'']"
  by code_simp

text \<open>
  C9 as amended: the pruning of note and figure applies to the tag of the
  top-level section only. A note or figure element visited inside a div is
  handled as any other node, and nothing of it is pruned: in the result of the
  section stand, in this order, its stripped text, its stripped tail (each when
  not empty) and the lines of its descendants as the loop comes to them.
\<close>

theorem nested_note_emitted:
  assumes "tag section = ns @ ''div''" and "e \<in> set (iter section)"
    and "tag e = ns @ ''note'' \<or> tag e = ns @ ''figure''"
    and "process_paper_section section = Inr lines"
  shows "\<exists>before after pre inner post.
    iter section = before @ e # concat (map iter (children e)) @ after \<and>
    visit_all before [] = Inr pre \<and>
    visit_all (concat (map iter (children e))) [] = Inr inner \<and>
    visit_all after [] = Inr post \<and>
    lines = pre @
      (case etext e of None \<Rightarrow> [] | Some t \<Rightarrow> if strip t = [] then [] else [strip t]) @
      (case tail e of None \<Rightarrow> [] | Some t \<Rightarrow> if strip t = [] then [] else [strip t]) @
      inner @ post"
proof -
  let ?own = "(case etext e of None \<Rightarrow> [] | Some t \<Rightarrow> if strip t = [] then [] else [strip t]) @
      (case tail e of None \<Rightarrow> [] | Some t \<Rightarrow> if strip t = [] then [] else [strip t])"
  have v: "visit e [] = Inr ?own"
    using assms(3)
    by (auto simp: visit_def visit_text_def visit_tail_def is_heading_def is_paragraph_def
        is_formula_def is_bib_reference_def split: option.splits)
  from div_subtree [OF assms(1,2,4)] obtain before after pre mid post where
    s: "iter section = before @ iter e @ after" and p: "visit_all before [] = Inr pre"
    and m: "visit_all (iter e) [] = Inr mid" and q: "visit_all after [] = Inr post"
    and l: "lines = pre @ mid @ post" by blast
  from m v have "visit_all (concat (map iter (children e))) ?own = Inr mid"
    by (simp add: iter_unfold [of e])
  then obtain inner where i: "visit_all (concat (map iter (children e))) [] = Inr inner"
    and "mid = ?own @ inner"
    using visit_all_result [of "concat (map iter (children e))" ?own] by (auto split: sum.splits)
  with l have "lines = pre @ ?own @ inner @ post" by simp
  moreover from s have "iter section = before @ e # concat (map iter (children e)) @ after"
    by (simp add: iter_unfold [of e])
  ultimately show ?thesis using p i q by (intro exI [of _ before] exI [of _ after]
    exI [of _ pre] exI [of _ inner] exI [of _ post]) simp
qed

theorem nested_note_emitted_witness:
  "tag nested_note_div = ns @ ''div'' \<and> nested_note \<in> set (iter nested_note_div) \<and>
   tag nested_note = ns @ ''note'' \<and>
   etext nested_note = Some ''see '' \<and> tail nested_note = Some '' after.'' \<and>
   visit_all (concat (map iter (children nested_note))) [] = Inr [''there'', ''too''] \<and>
   (\<exists>pre post. process_paper_section nested_note_div =
      Inr (pre @ [''see''] @ [''after.''] @ [''there'', ''too''] @ post))"
proof -
  have d: "tag nested_note_div = ns @ ''div''" by (simp add: nested_note_div_def tei_def)
  have m: "nested_note \<in> set (iter nested_note_div)"
    by (simp add: nested_note_div_def nested_note_def tei_def)
  have t: "tag nested_note = ns @ ''note''" by (simp add: nested_note_def tei_def)
  then have n: "tag nested_note = ns @ ''note'' \<or> tag nested_note = ns @ ''figure''" by simp
  have ok: "process_paper_section nested_note_div =
     Inr ['''', ''Before'', ''see'', ''after.'', ''there'', ''too'']" by code_simp
  have i: "visit_all (concat (map iter (children nested_note))) [] = Inr [''there'', ''too'']"
    by code_simp
  have x: "etext nested_note = Some ''see ''" "tail nested_note = Some '' after.''"
    by (simp_all add: nested_note_def tei_def)
  have s: "strip ''see '' = ''see''" "strip '' after.'' = ''after.''" by code_simp+
  from nested_note_emitted [OF d m n ok] obtain pre inner post where
    "visit_all (concat (map iter (children nested_note))) [] = Inr inner"
    "['''', ''Before'', ''see'', ''after.'', ''there'', ''too''] =
       pre @ [''see''] @ [''after.''] @ inner @ post"
    using x s by auto
  with i ok have "\<exists>pre post. process_paper_section nested_note_div =
      Inr (pre @ [''see''] @ [''after.''] @ [''there'', ''too''] @ post)" by auto
  with d m t x i show ?thesis by simp
qed

section \<open>Linearization changes nothing\<close>

text \<open>
  C8: let the section be the object at address \<open>a\<close> of any heap, and run the
  linearizer twice, the second time on the heap the first run leaves. After each
  run every object that was there before the run is unchanged, the document among
  them: the only object written to is the list the run itself allocates. The two
  runs return the same lines (or raise the same exception), those of
  \<open>process_paper_section\<close>.
\<close>

theorem linearization_repeatable:
  assumes "element_at h a = Some section"
    and "run1 = heap_process_paper_section a h"
    and "run2 = heap_process_paper_section a (snd run1)"
  shows "take (length h) (snd run1) = h \<and> take (length (snd run1)) (snd run2) = snd run1 \<and>
    element_at (snd run1) a = Some section \<and> element_at (snd run2) a = Some section \<and>
    returned_lines run1 = process_paper_section section \<and>
    returned_lines run2 = returned_lines run1"
proof -
  from heap_run [OF assms(1)] assms(2)
  have 1: "take (length h) (snd run1) = h" "returned_lines run1 = process_paper_section section"
    by simp_all
  from element_at_take [OF assms(1) 1(1)] have e1: "element_at (snd run1) a = Some section" .
  from heap_run [OF e1] assms(3)
  have 2: "take (length (snd run1)) (snd run2) = snd run1"
    "returned_lines run2 = process_paper_section section" by simp_all
  from element_at_take [OF e1 2(1)] have "element_at (snd run2) a = Some section" .
  with 1 2 e1 show ?thesis by simp
qed

theorem linearization_repeatable_witness:
  "element_at example_heap 1 = Some intro_div_sentence \<and>
   take 3 (snd (heap_process_paper_section 1 example_heap)) = example_heap \<and>
   returned_lines (heap_process_paper_section 1 example_heap) =
     Inr [''[[HEADING: Intro]]'', '''', ''Hello'', ''[[FORMULA: x=1]]'', ''world.''] \<and>
   returned_lines
     (heap_process_paper_section 1 (snd (heap_process_paper_section 1 example_heap))) =
     returned_lines (heap_process_paper_section 1 example_heap)"
proof -
  have e: "element_at example_heap 1 = Some intro_div_sentence"
    by (simp add: element_at_def example_heap_def)
  have l: "length example_heap = 3" by (simp add: example_heap_def)
  have ok: "process_paper_section intro_div_sentence =
     Inr [''[[HEADING: Intro]]'', '''', ''Hello'', ''[[FORMULA: x=1]]'', ''world.'']"
    by code_simp
  from linearization_repeatable [OF e refl refl] e l ok show ?thesis by simp
qed

end
